theory Spec2Isabelle
  imports Main "HOL-Library.Multiset" "HOL-Library.Char_ord" "HOL-Library.List_Lexorder"
    "HOL-Library.Word"
begin

section \<open>Data model\<close>

text \<open>
  The Go struct \<open>item\<close> of \<open>main.go\<close>. A Go string is a sequence of bytes, which is
  what \<open>string\<close> (a list of 8-bit characters) is.
\<close>

record item =
  name :: string
  checked :: bool

section \<open>Viewport arithmetic\<close>

text \<open>
  Go's \<open>int\<close> is a 64-bit machine integer. Every value that reaches the functions of
  this section is a cursor position, a catalog length or a terminal height, far away
  from the wrap-around, so they are modelled over the mathematical integers;
  \<open>ensureVisible64\<close> below is the same function on 64-bit words, and the two agree
  on all arguments of less than 62 bits.
\<close>

definition max_i :: "int \<Rightarrow> int \<Rightarrow> int" where
  "max_i a b = (if a > b then a else b)"

definition ensureVisible :: "int \<Rightarrow> int \<Rightarrow> int \<Rightarrow> int \<Rightarrow> int" where
  "ensureVisible cursor offset viewHeight totl =
     (if viewHeight \<le> 0 then 0
      else
        let maxOffset = max_i 0 (totl - viewHeight);
            offset1 = (if cursor < offset then cursor
                       else if cursor \<ge> offset + viewHeight then cursor - viewHeight + 1
                       else offset);
            offset2 = (if offset1 > maxOffset then maxOffset else offset1);
            offset3 = (if offset2 < 0 then 0 else offset2)
        in offset3)"

definition max_w :: "64 word \<Rightarrow> 64 word \<Rightarrow> 64 word" where
  "max_w a b = (if b <s a then a else b)"

definition ensureVisible64 :: "64 word \<Rightarrow> 64 word \<Rightarrow> 64 word \<Rightarrow> 64 word \<Rightarrow> 64 word" where
  "ensureVisible64 cursor offset viewHeight totl =
     (if viewHeight \<le>s 0 then 0
      else
        let maxOffset = max_w 0 (totl - viewHeight);
            offset1 = (if cursor <s offset then cursor
                       else if offset + viewHeight \<le>s cursor then cursor - viewHeight + 1
                       else offset);
            offset2 = (if maxOffset <s offset1 then maxOffset else offset1);
            offset3 = (if offset2 <s 0 then 0 else offset2)
        in offset3)"

definition small :: "64 word \<Rightarrow> bool" where
  "small x \<longleftrightarrow> - (2 ^ 61) \<le> sint x \<and> sint x < 2 ^ 61"



section \<open>The selector loop\<close>

text \<open>
  The events \<open>screen.PollEvent\<close> delivers, as far as the loop tells them apart. A rune
  is kept as a character; every rune other than the five the loop names takes the empty
  default of the inner switch. \<open>EventOther\<close> stands for every event that is neither a
  key nor a resize (and for the \<open>nil\<close> event), which the outer switch ignores.
\<close>

datatype key = KeyEscape | KeyCtrlC | KeyUp | KeyDown | KeyEnter | KeyRune char | KeyOther

datatype event = EventKey key | EventResize | EventOther

text \<open>
  Slices are references into a store of backing arrays: the loop writes through its
  slice, so whether it writes into the caller's array is a question of which array the
  slice refers to. An array is allocated at the end of the store.
\<close>

type_synonym heap = "item list list"

record sel_state =
  heap :: heap
  items :: nat
  cursor :: int
  offset :: int

datatype outcome =
    Running sel_state
  | Committed heap nat
  | Aborted heap
  | InitError
  | Panic

definition len :: "sel_state \<Rightarrow> int" where
  "len st = int (length (heap st ! items st))"

text \<open>
  \<open>drawScreen\<close>, reduced to what the loop and the reader of the screen get from it: the
  view height it returns and the rows of the catalog it draws (the index of each drawn
  item with its text, or \<open>None\<close> where \<open>items[i]\<close> is read at a negative index and
  panics). The padding of each row to the width of the terminal is left out.
\<close>

definition viewHeightOf :: "int \<Rightarrow> int" where
  "viewHeightOf height = (let viewHeight = height - 2 in if viewHeight < 1 then 1 else viewHeight)"

definition drawnWindow :: "int \<Rightarrow> int \<Rightarrow> int \<Rightarrow> int \<times> int" where
  "drawnWindow n offs viewHeight =
     (let offset1 = (if offs > n - viewHeight then max_i 0 (n - viewHeight) else offs);
          end1 = offset1 + viewHeight;
          end2 = (if end1 > n then n else end1)
      in (offset1, end2))"

definition formatRow :: "item \<Rightarrow> bool \<Rightarrow> string" where
  "formatRow it atCursor =
     (if atCursor then ''>'' else '' '') @ '' '' @
     (if checked it then ''[x]'' else ''[ ]'') @ '' '' @ name it"

definition drawScreen :: "item list \<Rightarrow> int \<Rightarrow> int \<Rightarrow> int \<Rightarrow> int \<times> (int \<times> string) list option" where
  "drawScreen its cur offs height =
     (let viewHeight = viewHeightOf height in
      if its = [] then (viewHeight, Some [])
      else
        let (offset1, end2) = drawnWindow (int (length its)) offs viewHeight
        in (viewHeight,
            if offset1 < 0 \<and> offset1 < end2 then None
            else Some (map (\<lambda>i. (i, formatRow (its ! nat i) (cur = i))) [offset1 .. end2 - 1])))"

text \<open>
  One iteration of the loop after the redraw: \<open>viewHeight\<close> is what \<open>drawScreen\<close>
  returned in this iteration. Indexing \<open>items[cursor]\<close> outside the slice panics.
\<close>

definition toggle :: "sel_state \<Rightarrow> outcome" where
  "toggle st =
     (if len st > 0 then
        (if 0 \<le> cursor st \<and> cursor st < len st then
           let arr = heap st ! items st;
               it = arr ! nat (cursor st)
           in Running (st\<lparr>heap := (heap st)[items st :=
                             arr[nat (cursor st) := it\<lparr>checked := \<not> checked it\<rparr>]]\<rparr>)
         else Panic)
      else Running st)"

definition moveUp :: "sel_state \<Rightarrow> sel_state" where
  "moveUp st = (if cursor st > 0 then st\<lparr>cursor := cursor st - 1\<rparr> else st)"

definition moveDown :: "sel_state \<Rightarrow> sel_state" where
  "moveDown st = (if cursor st < len st - 1 then st\<lparr>cursor := cursor st + 1\<rparr> else st)"

definition recompute :: "int \<Rightarrow> sel_state \<Rightarrow> outcome" where
  "recompute viewHeight st =
     Running (st\<lparr>offset := ensureVisible (cursor st) (offset st) viewHeight (len st)\<rparr>)"

fun handleKey :: "int \<Rightarrow> key \<Rightarrow> sel_state \<Rightarrow> outcome" where
  "handleKey vh KeyEscape st = Aborted (heap st)"
| "handleKey vh KeyCtrlC st = Aborted (heap st)"
| "handleKey vh KeyUp st = recompute vh (moveUp st)"
| "handleKey vh KeyDown st = recompute vh (moveDown st)"
| "handleKey vh KeyEnter st = Committed (heap st) (items st)"
| "handleKey vh (KeyRune r) st =
     (if r = CHR ''q'' \<or> r = CHR ''Q'' then Aborted (heap st)
      else if r = CHR ''k'' then recompute vh (moveUp st)
      else if r = CHR ''j'' then recompute vh (moveDown st)
      else if r = CHR '' '' then
        (case toggle st of Running st' \<Rightarrow> recompute vh st' | other \<Rightarrow> other)
      else recompute vh st)"
| "handleKey vh KeyOther st = recompute vh st"

fun handleEvent :: "int \<Rightarrow> event \<Rightarrow> sel_state \<Rightarrow> outcome" where
  "handleEvent vh (EventKey k) st = handleKey vh k st"
| "handleEvent vh EventResize st = Running st"
| "handleEvent vh EventOther st = Running st"

text \<open>
  The loop, run on the finite prefix of its input that has arrived: each element is the
  terminal height \<open>screen.Size\<close> reports at the redraw of one iteration and the event
  \<open>PollEvent\<close> then returns. \<open>Running st\<close> is the loop blocked in \<open>PollEvent\<close> with
  every input consumed.
\<close>

fun loop :: "sel_state \<Rightarrow> (int \<times> event) list \<Rightarrow> outcome" where
  "loop st [] = Running st"
| "loop st ((height, ev) # rest) =
     (case drawScreen (heap st ! items st) (cursor st) (offset st) height of
        (viewHeight, None) \<Rightarrow> Panic
      | (viewHeight, Some rows) \<Rightarrow>
          (case handleEvent viewHeight ev st of
             Running st' \<Rightarrow> loop st' rest
           | other \<Rightarrow> other))"

text \<open>
  \<open>runSelector\<close>: \<open>screen_ok\<close> says whether \<open>tcell.NewScreen\<close> and \<open>screen.Init\<close>
  succeed; \<open>initial\<close> is the caller's slice, copied into a new array before the loop.
\<close>

definition initState :: "heap \<Rightarrow> nat \<Rightarrow> sel_state" where
  "initState h initial =
     \<lparr>heap = h @ [h ! initial], items = length h, cursor = 0, offset = 0\<rparr>"

definition runSelector :: "bool \<Rightarrow> heap \<Rightarrow> nat \<Rightarrow> (int \<times> event) list \<Rightarrow> outcome" where
  "runSelector screen_ok h initial inputs =
     (if \<not> screen_ok then InitError else loop (initState h initial) inputs)"

section \<open>Errors, the output file and the world\<close>

datatype error =
    ReadDirError
  | InfoError
  | AbsError
  | GetwdError
  | OpenError
  | UnknownEntry string
  | ErrTooLong
  | IndexOutOfRange
  | WriteError
  | ScreenError

text \<open>
  \<open>output.txt\<close> in the working directory, as \<open>os.Open\<close> sees it: missing, present but
  not to be opened, or present with its bytes.
\<close>

datatype outfile = NotExist | Unreadable | Contents string

text \<open>
  The world \<open>main\<close> acts on: the output file, and the log of the contents handed to
  \<open>os.WriteFile\<close>, one entry for each call.
\<close>

record world =
  outputTxt :: outfile
  writes :: "string list"

abbreviation LF :: char where "LF \<equiv> CHR 0x0A"
abbreviation CR :: char where "CR \<equiv> CHR 0x0D"

section \<open>The persistence writer\<close>

text \<open>
  \<open>os.WriteFile\<close>: whether it fails is the environment's choice; \<open>fails = Some f\<close> is
  a failing write that leaves the file as \<open>f\<close>.
\<close>

definition WriteFile :: "outfile option \<Rightarrow> string \<Rightarrow> world \<Rightarrow> error option \<times> world" where
  "WriteFile fails data w =
     (case fails of
        None \<Rightarrow> (None, \<lparr>outputTxt = Contents data, writes = writes w @ [data]\<rparr>)
      | Some f \<Rightarrow> (Some WriteError, \<lparr>outputTxt = f, writes = writes w @ [data]\<rparr>))"

text \<open>The loop of \<open>writeSelections\<close> over the items, with the builder and the count.\<close>

fun writeLoop :: "item list \<Rightarrow> string \<times> int \<Rightarrow> string \<times> int" where
  "writeLoop [] acc = acc"
| "writeLoop (it # its) (b, cnt) =
     (if \<not> checked it then writeLoop its (b, cnt)
      else writeLoop its (b @ name it @ [LF], cnt + 1))"

definition writeSelections :: "item list \<Rightarrow> outfile option \<Rightarrow> world \<Rightarrow> (error + int) \<times> world" where
  "writeSelections its fails w =
     (let (b, cnt) = writeLoop its ([], 0) in
      case WriteFile fails b w of
        (Some e, w') \<Rightarrow> (Inl e, w')
      | (None, w') \<Rightarrow> (Inr cnt, w'))"

section \<open>Reconciliation with the persisted selection\<close>

text \<open>
  \<open>strings.TrimSpace\<close> removes the runes that \<open>unicode.IsSpace\<close> accepts from both ends
  of the string, the leading ones first. On the bytes of the string these are the six
  ASCII white-space bytes and the UTF-8 encodings of U+0085, U+00A0, U+1680,
  U+2000 to U+200A, U+2028, U+2029, U+202F, U+205F and U+3000.
\<close>

definition spaceSeqs :: "string list" where
  "spaceSeqs =
     [[CHR 0x09], [CHR 0x0A], [CHR 0x0B], [CHR 0x0C], [CHR 0x0D], [CHR 0x20],
      [CHR 0xC2, CHR 0x85], [CHR 0xC2, CHR 0xA0], [CHR 0xE1, CHR 0x9A, CHR 0x80]]
     @ map (\<lambda>b. [CHR 0xE2, CHR 0x80, b])
         [CHR 0x80, CHR 0x81, CHR 0x82, CHR 0x83, CHR 0x84, CHR 0x85, CHR 0x86, CHR 0x87,
          CHR 0x88, CHR 0x89, CHR 0x8A, CHR 0xA8, CHR 0xA9, CHR 0xAF]
     @ [[CHR 0xE2, CHR 0x81, CHR 0x9F], [CHR 0xE3, CHR 0x80, CHR 0x80]]"

function stripLeading :: "string list \<Rightarrow> string \<Rightarrow> string" where
  "stripLeading ws s =
     (case find (\<lambda>w. w \<noteq> [] \<and> take (length w) s = w) ws of
        None \<Rightarrow> s
      | Some w \<Rightarrow> stripLeading ws (drop (length w) s))"
  by pat_completeness auto
termination
proof (relation "measure (\<lambda>(ws, s). length s)")
  fix ws :: "string list" and s w :: string
  assume "find (\<lambda>w. w \<noteq> [] \<and> take (length w) s = w) ws = Some w"
  then have w: "w \<noteq> []" "take (length w) s = w"
    by (auto simp add: find_Some_iff)
  from w(2) have "length (take (length w) s) = length w"
    by simp
  then have "length w \<le> length s"
    by simp
  with w(1) have "length s - length w < length s"
    by (cases w) auto
  then show "((ws, drop (length w) s), (ws, s)) \<in> measure (\<lambda>(ws, s). length s)"
    by simp
qed simp

declare stripLeading.simps [simp del]

definition TrimSpace :: "string \<Rightarrow> string" where
  "TrimSpace s = rev (stripLeading (map rev spaceSeqs) (rev (stripLeading spaceSeqs s)))"

text \<open>
  \<open>bufio.Scanner\<close> with the default split function \<open>ScanLines\<close>: the tokens are the
  lines of the data without their terminator and without one trailing carriage return;
  a last line without terminator counts when it is not empty. A line of
  \<open>MaxScanTokenSize\<close> bytes or more does not fit the buffer: the scan stops there and
  \<open>scanner.Err\<close> is \<open>ErrTooLong\<close>. The result is the tokens \<open>scanner.Text\<close> yields and
  the final \<open>scanner.Err\<close>.
\<close>

definition MaxScanTokenSize :: nat where
  "MaxScanTokenSize = 64 * 1024"

definition dropCR :: "string \<Rightarrow> string" where
  "dropCR d = (if d \<noteq> [] \<and> last d = CR then butlast d else d)"

fun scanLines :: "string \<Rightarrow> string list \<times> error option" where
  "scanLines d =
     (if d = [] then ([], None)
      else
        let line = takeWhile (\<lambda>c. c \<noteq> LF) d in
        if length line \<ge> MaxScanTokenSize then ([], Some ErrTooLong)
        else
          let (ls, e) = scanLines (drop (Suc (length line)) d)
          in (dropCR line # ls, e))"

declare scanLines.simps [simp del]

text \<open>The map from names to indices that \<open>applyPreviousSelections\<close> builds first.\<close>

fun buildIndex :: "item list \<Rightarrow> nat \<Rightarrow> (string \<rightharpoonup> nat) \<Rightarrow> (string \<rightharpoonup> nat)" where
  "buildIndex [] i index = index"
| "buildIndex (it # its) i index = buildIndex its (Suc i) (index(name it \<mapsto> i))"

text \<open>The loop over the scanned lines.\<close>

fun applyLines :: "(string \<rightharpoonup> nat) \<Rightarrow> string list \<Rightarrow> item list \<Rightarrow> error + item list" where
  "applyLines index [] its = Inr its"
| "applyLines index (l # ls) its =
     (let entry = TrimSpace l in
      if entry = [] then applyLines index ls its
      else
        case index entry of
          None \<Rightarrow> Inl (UnknownEntry entry)
        | Some idx \<Rightarrow>
            if idx < length its
            then applyLines index ls (its[idx := (its ! idx)\<lparr>checked := True\<rparr>])
            else Inl IndexOutOfRange)"

definition applyPreviousSelections :: "item list \<Rightarrow> outfile \<Rightarrow> error + item list" where
  "applyPreviousSelections its f =
     (case f of
        NotExist \<Rightarrow> Inr its
      | Unreadable \<Rightarrow> Inl OpenError
      | Contents d \<Rightarrow>
          let index = buildIndex its 0 Map.empty;
              (ls, serr) = scanLines d
          in case applyLines index ls its of
               Inl e \<Rightarrow> Inl e
             | Inr its' \<Rightarrow> (case serr of Some e \<Rightarrow> Inl e | None \<Rightarrow> Inr its'))"

text \<open>
  The entries of a list of scanned lines: the lines trimmed, the blank ones dropped.
\<close>

definition entries :: "string list \<Rightarrow> string list" where
  "entries ls = filter (\<lambda>e. e \<noteq> []) (map TrimSpace ls)"

section \<open>Building the catalog\<close>

text \<open>
  One entry of \<open>os.ReadDir\<close>: its name, whether it is a directory, and what
  \<open>entry.Info\<close> gives (\<open>None\<close> when it fails, otherwise whether the mode is regular).
\<close>

record dirent =
  entName :: string
  entIsDir :: bool
  entInfo :: "bool option"

text \<open>
  \<open>filepath.Ext\<close>: the suffix from the last dot of the last path element (with the
  Unix separator), empty when there is no dot.
\<close>

definition Ext :: "string \<Rightarrow> string" where
  "Ext path =
     (let t = takeWhile (\<lambda>c. c \<noteq> CHR ''.'' \<and> c \<noteq> CHR ''/'') (rev path) in
      if length t < length path \<and> rev path ! length t = CHR ''.''
      then drop (length path - Suc (length t)) path
      else [])"

text \<open>
  \<open>strings.ToLower\<close>: a string of ASCII bytes only is mapped byte by byte; any other
  string goes through the Unicode case tables, which are the parameter \<open>U\<close> here.
\<close>

definition asciiLower :: "char \<Rightarrow> char" where
  "asciiLower c =
     (if 65 \<le> (of_char c :: nat) \<and> (of_char c :: nat) \<le> 90
      then char_of (of_char c + (32 :: nat)) else c)"

definition ToLower :: "(string \<Rightarrow> string) \<Rightarrow> string \<Rightarrow> string" where
  "ToLower U s =
     (if list_all (\<lambda>c. (of_char c :: nat) < 128) s then map asciiLower s else U s)"

fun collect :: "(string \<Rightarrow> string) \<Rightarrow> dirent list \<Rightarrow> item list \<Rightarrow> error + item list" where
  "collect U [] acc = Inr acc"
| "collect U (e # es) acc =
     (if entIsDir e then collect U es acc
      else
        case entInfo e of
          None \<Rightarrow> Inl InfoError
        | Some regular \<Rightarrow>
            if \<not> regular then collect U es acc
            else
              let nm = entName e;
                  ext = ToLower U (Ext nm)
              in if ext \<noteq> ''.md'' then collect U es acc
                 else
                   let stem = take (length nm - length (Ext nm)) nm
                   in if stem = [] then collect U es acc
                      else collect U es (acc @ [\<lparr>name = stem, checked = False\<rparr>]))"

text \<open>
  The comparison handed to \<open>sort.Slice\<close>: \<open>strings.Compare\<close> of the lower-cased names
  is negative, which is the lexicographic order of the bytes.
\<close>

definition lessName :: "(string \<Rightarrow> string) \<Rightarrow> item \<Rightarrow> item \<Rightarrow> bool" where
  "lessName U a b \<longleftrightarrow> ToLower U (name a) < ToLower U (name b)"

text \<open>
  \<open>sort.Slice\<close> is a function of the Go library, taken as the parameter \<open>srt\<close>. What
  its documentation promises is that the result is the slice reordered so that it is
  sorted by the comparison; it says that equal elements may end up in any order.
\<close>

type_synonym slice_sort = "(item \<Rightarrow> item \<Rightarrow> bool) \<Rightarrow> item list \<Rightarrow> item list"


definition listMarkdown ::
  "slice_sort \<Rightarrow> (string \<Rightarrow> string) \<Rightarrow> error + dirent list \<Rightarrow> error + item list" where
  "listMarkdown srt U dir =
     (case dir of
        Inl e \<Rightarrow> Inl e
      | Inr ents \<Rightarrow>
          (case collect U ents [] of
             Inl e \<Rightarrow> Inl e
           | Inr its \<Rightarrow> Inr (srt (lessName U) its)))"

text \<open>
  Two sorts that meet what \<open>sort.Slice\<close> promises: insertion that keeps equal elements
  in the order of arrival, and insertion that puts a new element before its equals.
\<close>

fun insertAfter :: "('a \<Rightarrow> 'a \<Rightarrow> bool) \<Rightarrow> 'a \<Rightarrow> 'a list \<Rightarrow> 'a list" where
  "insertAfter lt x [] = [x]"
| "insertAfter lt x (y # ys) = (if lt x y then x # y # ys else y # insertAfter lt x ys)"

definition keepingSort :: "('a \<Rightarrow> 'a \<Rightarrow> bool) \<Rightarrow> 'a list \<Rightarrow> 'a list" where
  "keepingSort lt xs = foldl (\<lambda>acc x. insertAfter lt x acc) [] xs"

fun insertBefore :: "('a \<Rightarrow> 'a \<Rightarrow> bool) \<Rightarrow> 'a \<Rightarrow> 'a list \<Rightarrow> 'a list" where
  "insertBefore lt x [] = [x]"
| "insertBefore lt x (y # ys) = (if lt y x then y # insertBefore lt x ys else x # y # ys)"

definition swappingSort :: "('a \<Rightarrow> 'a \<Rightarrow> bool) \<Rightarrow> 'a list \<Rightarrow> 'a list" where
  "swappingSort lt xs = foldl (\<lambda>acc x. insertBefore lt x acc) [] xs"

section \<open>The program\<close>

text \<open>
  What \<open>main\<close> gets from its environment: the number of arguments, whether
  \<open>filepath.Abs\<close> and \<open>os.Getwd\<close> succeed, what \<open>os.ReadDir\<close> returns, whether the
  screen can be set up, the heights and events the screen delivers, and whether
  \<open>os.WriteFile\<close> fails.
\<close>

record env =
  envNArg :: nat
  envAbsOk :: bool
  envDir :: "error + dirent list"
  envGetwdOk :: bool
  envScreenOk :: bool
  envInputs :: "(int \<times> event) list"
  envWriteFails :: "outfile option"

text \<open>
  How a run ends: the usage message (exit status 2), an error (exit status 1), one of
  the four messages of a run that returns, the loop still waiting for input, or a panic.
\<close>

datatype exit =
    Usage
  | ExitErr error
  | NoMarkdownFound
  | SelectionAborted
  | WroteEmpty
  | Saved int
  | Waiting
  | Crashed

definition main :: "slice_sort \<Rightarrow> (string \<Rightarrow> string) \<Rightarrow> env \<Rightarrow> world \<Rightarrow> exit \<times> world" where
  "main srt U e w =
     (if envNArg e \<noteq> 1 then (Usage, w)
      else if \<not> envAbsOk e then (ExitErr AbsError, w)
      else
        case listMarkdown srt U (envDir e) of
          Inl err \<Rightarrow> (ExitErr err, w)
        | Inr its0 \<Rightarrow>
            if \<not> envGetwdOk e then (ExitErr GetwdError, w)
            else
              case applyPreviousSelections its0 (outputTxt w) of
                Inl err \<Rightarrow> (ExitErr err, w)
              | Inr its \<Rightarrow>
                  if length its = 0 then (NoMarkdownFound, w)
                  else
                    case runSelector (envScreenOk e) [its] 0 (envInputs e) of
                      InitError \<Rightarrow> (ExitErr ScreenError, w)
                    | Aborted h \<Rightarrow> (SelectionAborted, w)
                    | Running st \<Rightarrow> (Waiting, w)
                    | Panic \<Rightarrow> (Crashed, w)
                    | Committed h finalItems \<Rightarrow>
                        (case writeSelections (h ! finalItems) (envWriteFails e) w of
                           (Inl err, w') \<Rightarrow> (ExitErr err, w')
                         | (Inr cnt, w') \<Rightarrow>
                             if cnt = 0 then (WroteEmpty, w') else (Saved cnt, w')))"

section \<open>Invariants of the selector loop\<close>

text \<open>
  What holds of the loop's state at every redraw, for a catalog of \<open>n\<close> items: the
  slice refers to an array of the store with \<open>n\<close> items, the cursor is at one of them
  (at 0 when there is none) and the offset is not negative.
\<close>

definition sel_inv :: "nat \<Rightarrow> sel_state \<Rightarrow> bool" where
  "sel_inv n st \<longleftrightarrow>
     items st < length (heap st) \<and> length (heap st ! items st) = n \<and>
     0 \<le> cursor st \<and> cursor st \<le> max_i 0 (int n - 1) \<and> 0 \<le> offset st"

text \<open>
  What holds of the store: the arrays \<open>h\<close> of the caller are as they were, and the
  loop's slice is the one array allocated behind them, under the names of the
  caller's \<open>initial\<close>.
\<close>

definition copy_inv :: "heap \<Rightarrow> nat \<Rightarrow> sel_state \<Rightarrow> bool" where
  "copy_inv h initial st \<longleftrightarrow>
     items st = length h \<and> length (heap st) = Suc (length h) \<and>
     take (length h) (heap st) = h \<and>
     map name (heap st ! items st) = map name (h ! initial)"

text \<open>The viewport invariant: the cursor row is inside the window of the view height.\<close>

definition cursorVisible :: "int \<Rightarrow> sel_state \<Rightarrow> bool" where
  "cursorVisible viewHeight st \<longleftrightarrow>
     offset st \<le> cursor st \<and> cursor st \<le> offset st + viewHeight - 1"


section \<open>What the loops compute\<close>

text \<open>The text of the checked items, one terminated line for each.\<close>

definition selectionText :: "item list \<Rightarrow> string" where
  "selectionText its = concat (map (\<lambda>it. name it @ [LF]) (filter checked its))"

text \<open>Setting \<open>checked\<close> on the items whose name is one of the entries.\<close>

definition markEntries :: "string list \<Rightarrow> item list \<Rightarrow> item list" where
  "markEntries es its = map (\<lambda>it. if name it \<in> set es then it\<lparr>checked := True\<rparr> else it) its"





section \<open>Example data\<close>

definition plain :: "string \<Rightarrow> item" where
  "plain n = \<lparr>name = n, checked = False\<rparr>"

definition picked :: "string \<Rightarrow> item" where
  "picked n = \<lparr>name = n, checked = True\<rparr>"

definition regularFile :: "string \<Rightarrow> dirent" where
  "regularFile n = \<lparr>entName = n, entIsDir = False, entInfo = Some True\<rparr>"

text \<open>
  A run in a directory with \<open>alpha.md\<close> and \<open>beta.md\<close>: on a terminal of 24 rows the
  user toggles the first item and then presses Escape.
\<close>

definition abortedRun :: env where
  "abortedRun =
     \<lparr>envNArg = 1, envAbsOk = True,
      envDir = Inr [regularFile ''alpha.md'', regularFile ''beta.md''],
      envGetwdOk = True, envScreenOk = True,
      envInputs = [(24, EventKey (KeyRune CHR '' '')), (24, EventKey KeyEscape)],
      envWriteFails = None\<rparr>"

definition betaSaved :: world where
  "betaSaved = \<lparr>outputTxt = Contents (''beta'' @ [LF]), writes = []\<rparr>"

text \<open>
  The run of the specification's end-to-end example: \<open>alpha\<close>, \<open>beta\<close> and
  \<open>gamma\<close>, the user moves down once, toggles and commits.
\<close>

definition betaRun :: env where
  "betaRun =
     \<lparr>envNArg = 1, envAbsOk = True,
      envDir = Inr [regularFile ''alpha.md'', regularFile ''beta.md'', regularFile ''gamma.md''],
      envGetwdOk = True, envScreenOk = True,
      envInputs = [(24, EventKey KeyDown), (24, EventKey (KeyRune CHR '' '')),
                   (24, EventKey KeyEnter)],
      envWriteFails = None\<rparr>"

section \<open>Viewport: the function and its specification\<close>


text \<open>
  On 64-bit words the function gives what it gives on the integers, as long as no
  argument needs more than 62 bits; the examples evaluate to the same values.
\<close>

lemma sint_add64:
  "- (2 ^ 63) \<le> sint a + sint b \<Longrightarrow> sint a + sint b < 2 ^ 63 \<Longrightarrow>
   sint (a + b :: 64 word) = sint a + sint b"
  by (simp add: sint_word_add signed_take_bit_int_eq_self)

lemma sint_diff64:
  "- (2 ^ 63) \<le> sint a - sint b \<Longrightarrow> sint a - sint b < 2 ^ 63 \<Longrightarrow>
   sint (a - b :: 64 word) = sint a - sint b"
  by (simp add: sint_word_diff signed_take_bit_int_eq_self)

lemma sint_one64: "sint (1 :: 64 word) = 1"
  by simp

lemma ensureVisible64_agrees:
  assumes "small c" and "small offs" and "small vh" and "small t"
  shows "sint (ensureVisible64 c offs vh t) = ensureVisible (sint c) (sint offs) (sint vh) (sint t)"
proof -
  from assms have b: "- (2 ^ 61) \<le> sint c" "sint c < 2 ^ 61" "- (2 ^ 61) \<le> sint offs" "sint offs < 2 ^ 61"
     "- (2 ^ 61) \<le> sint vh" "sint vh < 2 ^ 61" "- (2 ^ 61) \<le> sint t" "sint t < 2 ^ 61"
    by (simp_all add: small_def)
  have tv: "sint (t - vh) = sint t - sint vh" using b by (intro sint_diff64) simp_all
  have ov: "sint (offs + vh) = sint offs + sint vh" using b by (intro sint_add64) simp_all
  have cv: "sint (c - vh) = sint c - sint vh" using b by (intro sint_diff64) simp_all
  have cv1: "sint (c - vh + 1) = sint c - sint vh + 1"
    using b cv sint_add64[of "c - vh" 1] by simp
  show ?thesis
    by (simp add: ensureVisible64_def ensureVisible_def max_w_def max_i_def Let_def
        word_sless_alt word_sle_eq tv ov cv cv1)
qed

lemma ensureVisible64_examples:
  "ensureVisible64 0 5 3 10 = 0 \<and> ensureVisible64 9 0 3 10 = 7 \<and> ensureVisible64 2 0 10 3 = 0"
  by (simp add: ensureVisible64_def max_w_def Let_def word_sless_alt word_sle_eq)

section \<open>The selector loop keeps its invariants\<close>

lemma ensureVisible_nonneg: "0 \<le> ensureVisible c off vh t"
  by (simp add: ensureVisible_def max_i_def Let_def)

lemma viewHeightOf_pos: "1 \<le> viewHeightOf h"
  by (simp add: viewHeightOf_def Let_def)

lemma ensureVisible_window:
  assumes "1 \<le> vh" "0 \<le> c" "c < t"
  shows "ensureVisible c off vh t \<le> c \<and> c \<le> ensureVisible c off vh t + vh - 1"
  using assms by (simp add: ensureVisible_def max_i_def Let_def)

lemma len_moveUp: "len (moveUp st) = len st"
  by (simp add: moveUp_def len_def)

lemma len_moveDown: "len (moveDown st) = len st"
  by (simp add: moveDown_def len_def)

lemma sel_inv_moveUp: "sel_inv n st \<Longrightarrow> sel_inv n (moveUp st)"
  by (auto simp add: sel_inv_def moveUp_def max_i_def split: if_splits)

lemma sel_inv_moveDown: "sel_inv n st \<Longrightarrow> sel_inv n (moveDown st)"
  by (auto simp add: sel_inv_def moveDown_def len_def max_i_def split: if_splits)

lemma sel_inv_toggle: "sel_inv n st \<Longrightarrow> \<exists>st'. toggle st = Running st' \<and> sel_inv n st' \<and> cursor st' = cursor st \<and> offset st' = offset st"
  by (auto simp add: sel_inv_def toggle_def len_def max_i_def Let_def split: if_splits)

lemma sel_inv_recompute: "sel_inv n st \<Longrightarrow> \<exists>st'. recompute vh st = Running st' \<and> sel_inv n st' \<and> cursor st' = cursor st"
  by (simp add: sel_inv_def recompute_def ensureVisible_nonneg)

lemma handleKey_inv:
  assumes "sel_inv n st"
  shows "handleKey vh k st \<noteq> Panic \<and> handleKey vh k st \<noteq> InitError \<and> (\<forall>st'. handleKey vh k st = Running st' \<longrightarrow> sel_inv n st')"
proof (cases k)
  case (KeyRune r)
  from sel_inv_toggle[OF assms] obtain t where t: "toggle st = Running t" "sel_inv n t" by blast
  show ?thesis using KeyRune t assms sel_inv_recompute[of n t vh] sel_inv_recompute[of n st vh]
      sel_inv_recompute[OF sel_inv_moveUp[OF assms], of vh] sel_inv_recompute[OF sel_inv_moveDown[OF assms], of vh]
    by auto
next
  case KeyUp
  then show ?thesis using sel_inv_recompute[OF sel_inv_moveUp[OF assms], of vh] by auto
next
  case KeyDown
  then show ?thesis using sel_inv_recompute[OF sel_inv_moveDown[OF assms], of vh] by auto
next
  case KeyOther
  then show ?thesis using sel_inv_recompute[OF assms, of vh] by auto
qed simp_all

lemma handleEvent_inv:
  assumes "sel_inv n st"
  shows "handleEvent vh ev st \<noteq> Panic \<and> handleEvent vh ev st \<noteq> InitError \<and> (\<forall>st'. handleEvent vh ev st = Running st' \<longrightarrow> sel_inv n st')"
  using assms handleKey_inv[OF assms] by (cases ev) simp_all

lemma drawScreen_no_panic:
  "0 \<le> offs \<Longrightarrow> \<exists>rows. drawScreen its cur offs height = (viewHeightOf height, Some rows)"
  by (auto simp add: drawScreen_def drawnWindow_def max_i_def Let_def)

lemma loop_inv:
  "sel_inv n st \<Longrightarrow> loop st inputs \<noteq> Panic \<and> loop st inputs \<noteq> InitError \<and> (\<forall>st'. loop st inputs = Running st' \<longrightarrow> sel_inv n st')"
proof (induction inputs arbitrary: st)
  case Nil
  then show ?case by simp
next
  case (Cons a inputs)
  obtain height ev where a: "a = (height, ev)" by (cases a)
  from Cons.prems have "0 \<le> offset st" by (simp add: sel_inv_def)
  then obtain rows where d: "drawScreen (heap st ! items st) (cursor st) (offset st) height = (viewHeightOf height, Some rows)"
    using drawScreen_no_panic by blast
  show ?case
  proof (cases "handleEvent (viewHeightOf height) ev st")
    case (Running st1)
    with handleEvent_inv[OF Cons.prems, of "viewHeightOf height" ev] have "sel_inv n st1" by simp
    from Cons.IH[OF this] show ?thesis using a d Running by simp
  qed (use handleEvent_inv[OF Cons.prems, of "viewHeightOf height" ev] a d in simp_all)
qed

lemma sel_inv_init: "initial < length h \<Longrightarrow> sel_inv (length (h ! initial)) (initState h initial)"
  by (simp add: sel_inv_def initState_def max_i_def nth_append)

lemmas sel_eval =
  runSelector_def initState_def drawScreen_def drawnWindow_def viewHeightOf_def
  recompute_def moveUp_def moveDown_def toggle_def len_def ensureVisible_def max_i_def
  formatRow_def plain_def picked_def Let_def

subsection \<open>The cursor stays on the catalog\<close>

text \<open>
  Claim C3: for a non-empty catalog the cursor of the loop, which starts at 0, is within
  \<open>[0, len - 1]\<close> after every sequence of events; move-up decrements it only above 0,
  move-down increments it only below \<open>len - 1\<close>, and a toggle leaves it alone.
\<close>

theorem cursor_stays_in_range:
  assumes "initial < length h" and "h ! initial \<noteq> []"
  shows "runSelector True h initial inputs \<noteq> Panic
     \<and> (\<forall>st. runSelector True h initial inputs = Running st \<longrightarrow>
            0 \<le> cursor st \<and> cursor st \<le> len st - 1 \<and> len st = int (length (h ! initial)))
     \<and> cursor (moveUp st0) = (if cursor st0 > 0 then cursor st0 - 1 else cursor st0)
     \<and> cursor (moveDown st0) = (if cursor st0 < len st0 - 1 then cursor st0 + 1 else cursor st0)
     \<and> (\<forall>st'. toggle st0 = Running st' \<longrightarrow> cursor st' = cursor st0)"
proof -
  let ?n = "length (h ! initial)"
  have pos: "0 < ?n" using assms(2) by simp
  have inv: "sel_inv ?n (initState h initial)" using assms(1) by (rule sel_inv_init)
  note L = loop_inv[OF inv, of inputs]
  have a: "runSelector True h initial inputs \<noteq> Panic" using L by (simp add: runSelector_def)
  have b: "0 \<le> cursor st \<and> cursor st \<le> len st - 1 \<and> len st = int ?n"
    if "runSelector True h initial inputs = Running st" for st
  proof -
    from that L have "sel_inv ?n st" by (simp add: runSelector_def)
    then show ?thesis using pos by (simp add: sel_inv_def len_def max_i_def split: if_splits)
  qed
  have c: "cursor (moveUp st0) = (if cursor st0 > 0 then cursor st0 - 1 else cursor st0)"
    by (simp add: moveUp_def)
  have d: "cursor (moveDown st0) = (if cursor st0 < len st0 - 1 then cursor st0 + 1 else cursor st0)"
    by (simp add: moveDown_def)
  have e: "cursor st' = cursor st0" if "toggle st0 = Running st'" for st'
    using that by (auto simp add: toggle_def Let_def split: if_splits)
  from a b c d e show ?thesis by blast
qed

theorem cursor_stays_in_range_witness:
  "(0::nat) < length [[plain ''a'', plain ''b'']]
   \<and> [[plain ''a'', plain ''b'']] ! 0 \<noteq> []
   \<and> runSelector True [[plain ''a'', plain ''b'']] 0
        [(10, EventKey KeyDown), (10, EventKey KeyDown), (10, EventKey (KeyRune CHR '' '')),
         (10, EventKey KeyUp), (10, EventKey KeyUp)]
       = Running \<lparr>heap = [[plain ''a'', plain ''b''], [plain ''a'', picked ''b'']],
                  items = 1, cursor = 0, offset = 0\<rparr>
   \<and> 0 \<le> cursor \<lparr>heap = [[plain ''a'', plain ''b''], [plain ''a'', picked ''b'']],
                  items = 1, cursor = 0, offset = 0\<rparr>
   \<and> cursor \<lparr>heap = [[plain ''a'', plain ''b''], [plain ''a'', picked ''b'']],
                  items = 1, cursor = 0, offset = 0\<rparr>
       \<le> len \<lparr>heap = [[plain ''a'', plain ''b''], [plain ''a'', picked ''b'']],
                  items = 1, cursor = 0, offset = 0\<rparr> - 1"
proof -
  let ?h = "[[plain ''a'', plain ''b'']]"
  let ?inputs = "[(10, EventKey KeyDown), (10, EventKey KeyDown), (10, EventKey (KeyRune CHR '' '')),
         (10, EventKey KeyUp), (10, EventKey KeyUp)]"
  let ?st = "\<lparr>heap = [[plain ''a'', plain ''b''], [plain ''a'', picked ''b'']],
                  items = 1, cursor = 0, offset = 0\<rparr>"
  have h1: "(0::nat) < length ?h" by simp
  have h2: "?h ! 0 \<noteq> []" by simp
  have run: "runSelector True ?h 0 ?inputs = Running ?st"
    by (simp add: sel_eval)
  from cursor_stays_in_range[OF h1 h2, of ?inputs] run
  have "0 \<le> cursor ?st \<and> cursor ?st \<le> len ?st - 1" by simp
  with h1 h2 run show ?thesis by simp
qed

subsection \<open>The viewport\<close>

lemma handleKey_visible:
  assumes "sel_inv n st" and "0 < n" and "1 \<le> vh" and "handleKey vh k st = Running st'"
  shows "cursorVisible vh st'"
proof -
  have vis: "cursorVisible vh s'" if "sel_inv n s" "recompute vh s = Running s'" for s s'
  proof -
    from that(1) assms(2) have "0 \<le> cursor s" "cursor s < len s"
      by (simp_all add: sel_inv_def len_def max_i_def split: if_splits)
    from ensureVisible_window[OF assms(3) this, of "offset s"] that(2)
    show ?thesis by (auto simp add: recompute_def cursorVisible_def)
  qed
  show ?thesis
  proof (cases k)
    case KeyUp
    with assms(4) vis[OF sel_inv_moveUp[OF assms(1)]] show ?thesis by simp
  next
    case KeyDown
    with assms(4) vis[OF sel_inv_moveDown[OF assms(1)]] show ?thesis by simp
  next
    case (KeyRune r)
    from sel_inv_toggle[OF assms(1)] obtain t where t: "toggle st = Running t" "sel_inv n t"
      by blast
    from KeyRune assms(4) t vis[OF sel_inv_moveUp[OF assms(1)]] vis[OF sel_inv_moveDown[OF assms(1)]]
      vis[OF assms(1)] vis[OF t(2)]
    show ?thesis by (auto split: if_splits)
  next
    case KeyOther
    with assms(4) vis[OF assms(1)] show ?thesis by simp
  qed (use assms(4) in simp_all)
qed

text \<open>
  After a key event the cursor row is inside the window of the view height of that
  iteration, whatever the height was before.
\<close>

lemma viewport_after_key:
  assumes "initial < length h" and "h ! initial \<noteq> []"
    and "runSelector True h initial inputs = Running st"
    and "handleEvent (viewHeightOf height) (EventKey k) st = Running st'"
  shows "cursorVisible (viewHeightOf height) st'"
proof -
  have "sel_inv (length (h ! initial)) st"
    using loop_inv[OF sel_inv_init[OF assms(1)], of inputs] assms(3) by (simp add: runSelector_def)
  moreover have "0 < length (h ! initial)" using assms(2) by simp
  ultimately show ?thesis
    using handleKey_visible[OF _ _ viewHeightOf_pos, of _ st height k st'] assms(4) by simp
qed

text \<open>
  Claim C1 says that the cursor row is inside the visible window after every event the
  loop handles, a resize included. The loop recomputes the offset after key events
  only: with two items on a terminal of 4 rows the cursor moves down to the second
  item; the terminal shrinks to 3 rows, the resize events change nothing, and the
  redraw at the new height shows the first item alone, without the cursor.
\<close>

theorem cursor_hidden_after_resize:
  "loop (initState [[plain ''a'', plain ''b'']] 0)
        [(4, EventKey KeyDown), (4, EventResize), (3, EventResize)]
     = Running \<lparr>heap = [[plain ''a'', plain ''b''], [plain ''a'', plain ''b'']],
                items = 1, cursor = 1, offset = 0\<rparr>
   \<and> drawScreen [plain ''a'', plain ''b''] 1 0 3 = (1, Some [(0, ''  [ ] a'')])
   \<and> \<not> cursorVisible (viewHeightOf 3)
          \<lparr>heap = [[plain ''a'', plain ''b''], [plain ''a'', plain ''b'']],
           items = 1, cursor = 1, offset = 0\<rparr>"
  by (simp add: sel_eval cursorVisible_def)

subsection \<open>The loop writes into its own copy\<close>





lemma copy_inv_recompute:
  "copy_inv h initial st \<Longrightarrow> recompute vh st = Running st' \<Longrightarrow> copy_inv h initial st'"
  by (auto simp add: copy_inv_def recompute_def)










subsection \<open>The empty catalog\<close>

lemma handleEvent_empty:
  assumes "heap st ! items st = []" and "cursor st = 0" and "offset st = 0"
  shows "handleEvent vh ev st = Running st
       \<or> handleEvent vh ev st = Committed (heap st) (items st)
       \<or> handleEvent vh ev st = Aborted (heap st)"
proof (cases ev)
  case (EventKey k)
  have r: "recompute vh st = Running st"
    using assms by (simp add: recompute_def ensureVisible_def max_i_def Let_def len_def)
  have u: "moveUp st = st" using assms by (simp add: moveUp_def)
  have d: "moveDown st = st" using assms by (simp add: moveDown_def len_def)
  have t: "toggle st = Running st" using assms by (simp add: toggle_def len_def)
  from EventKey r u d t show ?thesis by (cases k) simp_all
qed simp_all

lemma loop_empty:
  assumes "heap st ! items st = []" and "cursor st = 0" and "offset st = 0"
  shows "loop st inputs = Running st
       \<or> loop st inputs = Committed (heap st) (items st)
       \<or> loop st inputs = Aborted (heap st)"
proof (induction inputs)
  case Nil
  then show ?case by simp
next
  case (Cons a inputs)
  obtain height ev where a: "a = (height, ev)" by (cases a)
  have d: "drawScreen (heap st ! items st) (cursor st) (offset st) height = (viewHeightOf height, Some [])"
    using assms by (simp add: drawScreen_def)
  from handleEvent_empty[OF assms, of "viewHeightOf height" ev] Cons.IH a d
  show ?case by auto
qed

section \<open>The persistence writer\<close>

lemma writeLoop_acc:
  "writeLoop its (b, c) = (b @ selectionText its, c + int (length (filter checked its)))"
  by (induction its arbitrary: b c) (simp_all add: selectionText_def)

lemma writeSelections_eq:
  "writeSelections its fails w =
     (case fails of
        None \<Rightarrow> (Inr (int (length (filter checked its))),
                 \<lparr>outputTxt = Contents (selectionText its), writes = writes w @ [selectionText its]\<rparr>)
      | Some f \<Rightarrow> (Inl WriteError, \<lparr>outputTxt = f, writes = writes w @ [selectionText its]\<rparr>))"
  by (simp add: writeSelections_def writeLoop_acc WriteFile_def split: option.splits)



text \<open>
  Claim C9: with an empty catalog the loop does nothing on move and toggle events, a
  commit returns the empty catalog and a cancel aborts; writing the empty catalog
  gives a count of 0 and an empty file.
\<close>

theorem commit_on_empty_catalog:
  assumes "initial < length h" and "h ! initial = []"
  shows "(runSelector True h initial inputs = Running (initState h initial)
          \<or> runSelector True h initial inputs
               = Committed (heap (initState h initial)) (items (initState h initial))
          \<or> runSelector True h initial inputs = Aborted (heap (initState h initial)))
     \<and> handleEvent vh (EventKey KeyEnter) (initState h initial)
          = Committed (heap (initState h initial)) (items (initState h initial))
     \<and> handleEvent vh (EventKey KeyEscape) (initState h initial)
          = Aborted (heap (initState h initial))
     \<and> heap (initState h initial) ! items (initState h initial) = []
     \<and> writeSelections (heap (initState h initial) ! items (initState h initial)) None w
          = (Inr 0, \<lparr>outputTxt = Contents [], writes = writes w @ [[]]\<rparr>)"
proof -
  let ?s = "initState h initial"
  have e: "heap ?s ! items ?s = []" using assms by (simp add: initState_def)
  have c: "cursor ?s = 0" "offset ?s = 0" by (simp_all add: initState_def)
  from loop_empty[OF e c, of inputs]
  have "runSelector True h initial inputs = Running ?s
      \<or> runSelector True h initial inputs = Committed (heap ?s) (items ?s)
      \<or> runSelector True h initial inputs = Aborted (heap ?s)"
    by (simp add: runSelector_def)
  moreover have "writeSelections (heap ?s ! items ?s) None w
      = (Inr 0, \<lparr>outputTxt = Contents [], writes = writes w @ [[]]\<rparr>)"
    by (simp add: e writeSelections_eq selectionText_def)
  ultimately show ?thesis using e by simp
qed

theorem commit_on_empty_catalog_witness:
  "(0::nat) < length [[] :: item list] \<and> [[] :: item list] ! 0 = []
   \<and> runSelector True [[]] 0
        [(24, EventKey KeyDown), (24, EventKey (KeyRune CHR '' '')), (24, EventKey KeyUp),
         (24, EventKey KeyEnter)]
       = Committed [[], []] 1
   \<and> writeSelections ([[], []] ! 1) None \<lparr>outputTxt = NotExist, writes = []\<rparr>
       = (Inr 0, \<lparr>outputTxt = Contents [], writes = [[]]\<rparr>)"
proof -
  have h1: "(0::nat) < length [[] :: item list]" by simp
  have h2: "[[] :: item list] ! 0 = []" by simp
  have run: "runSelector True [[]] 0
        [(24, EventKey KeyDown), (24, EventKey (KeyRune CHR '' '')), (24, EventKey KeyUp),
         (24, EventKey KeyEnter)] = Committed [[], []] 1"
    by (simp add: sel_eval)
  from commit_on_empty_catalog[OF h1 h2, of _ _ "\<lparr>outputTxt = NotExist, writes = []\<rparr>"]
  have "writeSelections ([[], []] ! 1) None \<lparr>outputTxt = NotExist, writes = []\<rparr>
       = (Inr 0, \<lparr>outputTxt = Contents [], writes = [[]]\<rparr>)"
    by (simp add: initState_def)
  with h1 h2 run show ?thesis by simp
qed

section \<open>Reconciliation\<close>

lemma buildIndex_notin:
  "e \<notin> set (map name its) \<Longrightarrow> buildIndex its i m e = m e"
  by (induction its arbitrary: i m) auto

lemma buildIndex_None:
  "buildIndex its i m e = None \<longleftrightarrow> m e = None \<and> e \<notin> set (map name its)"
  by (induction its arbitrary: i m) auto

lemma buildIndex_distinct:
  "distinct (map name its) \<Longrightarrow> k < length its \<Longrightarrow>
   buildIndex its i m (name (its ! k)) = Some (i + k)"
proof (induction its arbitrary: i m k)
  case Nil
  then show ?case by simp
next
  case (Cons it its)
  show ?case
  proof (cases k)
    case 0
    with Cons.prems show ?thesis by (simp add: buildIndex_notin)
  next
    case (Suc k')
    with Cons.prems Cons.IH[of k' "Suc i"] show ?thesis by simp
  qed
qed

lemma mark_one:
  assumes "distinct (map name its)" and "idx < length its"
  shows "its[idx := (its ! idx)\<lparr>checked := True\<rparr>] = markEntries [name (its ! idx)] its"
proof (rule nth_equalityI)
  show "length (its[idx := (its ! idx)\<lparr>checked := True\<rparr>]) = length (markEntries [name (its ! idx)] its)"
    by (simp add: markEntries_def)
next
  fix i assume "i < length (its[idx := (its ! idx)\<lparr>checked := True\<rparr>])"
  then have i: "i < length its" by simp
  show "its[idx := (its ! idx)\<lparr>checked := True\<rparr>] ! i = markEntries [name (its ! idx)] its ! i"
  proof (cases "i = idx")
    case True
    with i show ?thesis by (simp add: markEntries_def)
  next
    case False
    from assms(1) i assms(2) False have "name (its ! i) \<noteq> name (its ! idx)"
      using nth_eq_iff_index_eq[of "map name its" i idx] by simp
    with i False show ?thesis by (simp add: markEntries_def)
  qed
qed

lemma mark_mark: "markEntries es (markEntries [e] its) = markEntries (e # es) its"
  by (induction its) (auto simp add: markEntries_def)

lemma names_mark: "map name (markEntries es its) = map name its"
  by (induction its) (auto simp add: markEntries_def)

lemma entries_Cons:
  "entries (l # ls) = (if TrimSpace l = [] then entries ls else TrimSpace l # entries ls)"
  by (simp add: entries_def)

lemma applyLines_char:
  assumes "distinct ns"
    and "\<And>e. (index e = None) = (e \<notin> set ns)"
    and "\<And>k. k < length ns \<Longrightarrow> index (ns ! k) = Some k"
  shows "map name its = ns \<Longrightarrow>
         applyLines index ls its =
           (case find (\<lambda>e. e \<notin> set ns) (entries ls) of
              Some e \<Rightarrow> Inl (UnknownEntry e)
            | None \<Rightarrow> Inr (markEntries (entries ls) its))"
proof (induction ls arbitrary: its)
  case Nil
  then show ?case by (simp add: entries_def markEntries_def)
next
  case (Cons l ls)
  show ?case
  proof (cases "TrimSpace l = []")
    case True
    with Cons show ?thesis by (simp add: entries_Cons split: option.splits)
  next
    case False
    show ?thesis
    proof (cases "TrimSpace l \<in> set ns")
      case notin: False
      with assms(2) have "index (TrimSpace l) = None" by simp
      with False notin show ?thesis by (simp add: entries_Cons split: option.splits)
    next
      case isin: True
      then obtain k where k: "k < length ns" "ns ! k = TrimSpace l"
        by (auto simp add: in_set_conv_nth)
      with assms(3) have ix: "index (TrimSpace l) = Some k" by metis
      from k Cons.prems have kl: "k < length its" "name (its ! k) = TrimSpace l"
        by (auto simp add: nth_map[symmetric] simp del: nth_map)
      from assms(1) Cons.prems have d: "distinct (map name its)" by simp
      have upd: "its[k := (its ! k)\<lparr>checked := True\<rparr>] = markEntries [TrimSpace l] its"
        using mark_one[OF d kl(1)] kl(2) by simp
      have "map name (markEntries [TrimSpace l] its) = ns"
        using Cons.prems by (simp add: names_mark)
      from Cons.IH[OF this] False isin ix kl(1) upd show ?thesis
        by (simp add: entries_Cons mark_mark split: option.splits)
    qed
  qed
qed

lemma applyLines_buildIndex:
  assumes "distinct (map name its)"
  shows "applyLines (buildIndex its 0 Map.empty) ls its =
           (case find (\<lambda>e. e \<notin> set (map name its)) (entries ls) of
              Some e \<Rightarrow> Inl (UnknownEntry e)
            | None \<Rightarrow> Inr (markEntries (entries ls) its))"
proof (rule applyLines_char[OF assms _ _ refl])
  show "(buildIndex its 0 Map.empty e = None) = (e \<notin> set (map name its))" for e
    by (simp add: buildIndex_None)
next
  fix k assume "k < length (map name its)"
  then have "k < length its" by simp
  from buildIndex_distinct[OF assms this, of 0 Map.empty] this
  show "buildIndex its 0 Map.empty (map name its ! k) = Some k" by simp
qed

lemmas trim_eval = TrimSpace_def spaceSeqs_def stripLeading.simps entries_def





section \<open>Writing and reading back\<close>

lemma stripLeading_length: "length (stripLeading ws s) \<le> length s"
proof (induction ws s rule: stripLeading.induct)
  case (1 ws s)
  show ?case
  proof (cases "find (\<lambda>w. w \<noteq> [] \<and> take (length w) s = w) ws")
    case None
    then show ?thesis by (simp add: stripLeading.simps)
  next
    case (Some w)
    from "1.IH"[OF Some] have "length (stripLeading ws (drop (length w) s)) \<le> length s" by simp
    with Some show ?thesis by (simp add: stripLeading.simps[of ws s])
  qed
qed

lemma stripLeading_shorter:
  assumes "find (\<lambda>w. w \<noteq> [] \<and> take (length w) s = w) ws = Some w"
  shows "length (stripLeading ws s) < length s"
proof -
  from assms have w: "w \<noteq> []" "take (length w) s = w" by (auto simp add: find_Some_iff)
  from w(2) have "length (take (length w) s) = length w" by simp
  then have "length w \<le> length s" by simp
  with w(1) have "length (drop (length w) s) < length s" by (cases w) auto
  with stripLeading_length[of ws "drop (length w) s"] assms show ?thesis
    by (simp add: stripLeading.simps[of ws s])
qed

lemma stripLeading_fixed:
  assumes "length (stripLeading ws s) = length s"
  shows "find (\<lambda>w. w \<noteq> [] \<and> take (length w) s = w) ws = None \<and> stripLeading ws s = s"
proof (cases "find (\<lambda>w. w \<noteq> [] \<and> take (length w) s = w) ws")
  case None
  then show ?thesis by (simp add: stripLeading.simps[of ws s])
next
  case (Some w)
  from stripLeading_shorter[OF Some] assms show ?thesis by simp
qed

lemma TrimSpace_fixed_no_CR:
  assumes "TrimSpace n = n" and "n \<noteq> []"
  shows "last n \<noteq> CR"
proof
  assume cr: "last n = CR"
  let ?a = "stripLeading spaceSeqs n"
  let ?b = "stripLeading (map rev spaceSeqs) (rev ?a)"
  from assms(1) have "length ?b = length n"
    by (metis TrimSpace_def length_rev)
  moreover have "length ?b \<le> length ?a" using stripLeading_length[of _ "rev ?a"] by simp
  moreover have "length ?a \<le> length n" by (rule stripLeading_length)
  ultimately have la: "length ?a = length n" and lb: "length ?b = length (rev ?a)" by simp_all
  from stripLeading_fixed[OF la] have a: "?a = n" by simp
  from stripLeading_fixed[OF lb] a
  have none: "find (\<lambda>w. w \<noteq> [] \<and> take (length w) (rev n) = w) (map rev spaceSeqs) = None" by simp
  have mem: "[CR] \<in> set (map rev spaceSeqs)" by (simp add: spaceSeqs_def)
  from assms(2) cr have tk: "take (length [CR]) (rev n) = [CR]"
    by (cases n rule: rev_cases) simp_all
  from none have "\<forall>w\<in>set (map rev spaceSeqs). \<not> (w \<noteq> [] \<and> take (length w) (rev n) = w)"
    by (simp only: find_None_iff) blast
  with mem have "\<not> ([CR] \<noteq> [] \<and> take (length [CR]) (rev n) = [CR])" by blast
  with tk show False by simp
qed

lemma dropCR_trimmed: "TrimSpace n = n \<Longrightarrow> n \<noteq> [] \<Longrightarrow> dropCR n = n"
  using TrimSpace_fixed_no_CR by (simp add: dropCR_def)

lemma scanLines_terminated:
  assumes "LF \<notin> set n" and "length n < MaxScanTokenSize"
  shows "scanLines (n @ LF # rest) = (dropCR n # fst (scanLines rest), snd (scanLines rest))"
proof -
  have "takeWhile (\<lambda>c. c \<noteq> LF) (n @ LF # rest) = n"
    using assms(1) by (auto simp add: takeWhile_tail takeWhile_eq_all_conv)
  with assms(2) show ?thesis
    by (subst scanLines.simps) (simp add: Let_def split: prod.splits)
qed

lemma scanLines_selection:
  assumes "\<And>n. n \<in> set ns \<Longrightarrow> LF \<notin> set n \<and> length n < MaxScanTokenSize \<and> dropCR n = n"
  shows "scanLines (concat (map (\<lambda>n. n @ [LF]) ns)) = (ns, None)"
  using assms
proof (induction ns)
  case Nil
  then show ?case by (simp add: scanLines.simps)
next
  case (Cons n ns)
  from Cons.prems[of n] have n: "LF \<notin> set n" "length n < MaxScanTokenSize" "dropCR n = n"
    by simp_all
  from Cons.IH Cons.prems have "scanLines (concat (map (\<lambda>n. n @ [LF]) ns)) = (ns, None)" by simp
  with scanLines_terminated[OF n(1,2), of "concat (map (\<lambda>n. n @ [LF]) ns)"] n(3)
  show ?case by simp
qed

lemma selectionText_names:
  "selectionText its = concat (map (\<lambda>n. n @ [LF]) (map name (filter checked its)))"
  by (simp add: selectionText_def comp_def)

lemma entries_trimmed:
  "(\<And>n. n \<in> set ns \<Longrightarrow> TrimSpace n = n \<and> n \<noteq> []) \<Longrightarrow> entries ns = ns"
  by (induction ns) (simp_all add: entries_def)

lemma mark_back:
  assumes "distinct (map name its)"
  shows "markEntries (map name (filter checked its)) (map (\<lambda>it. it\<lparr>checked := False\<rparr>) its) = its"
proof -
  have inj: "inj_on name (set its)" using assms by (simp add: distinct_map)
  have el: "(if name it \<in> set (map name (filter checked its))
         then it\<lparr>checked := True\<rparr> else it\<lparr>checked := False\<rparr>) = it" if "it \<in> set its" for it
  proof (cases "checked it")
    case True
    with that have "name it \<in> set (map name (filter checked its))" by auto
    with True show ?thesis by simp
  next
    case False
    have "name it \<notin> set (map name (filter checked its))"
    proof
      assume "name it \<in> set (map name (filter checked its))"
      then obtain it' where "it' \<in> set its" "checked it'" "name it' = name it" by auto
      with inj that have "it' = it" by (auto dest: inj_onD)
      with \<open>checked it'\<close> False show False by simp
    qed
    with False show ?thesis by simp
  qed
  show ?thesis
    unfolding markEntries_def map_map comp_def
  proof (rule map_idI)
    fix it assume "it \<in> set its"
    from el[OF this]
    show "(if name (it\<lparr>checked := False\<rparr>) \<in> set (map name (filter checked its))
           then it\<lparr>checked := False\<rparr>\<lparr>checked := True\<rparr> else it\<lparr>checked := False\<rparr>) = it"
      by (simp split: if_splits)
  qed
qed

text \<open>
  Claim C5 as the code has it. For a catalog with pairwise distinct names in which the
  name of every checked item is not empty, has no white space at its ends, contains no
  line feed and is shorter than the scanner's limit: reconciling the catalog with all
  items unchecked against the file the writer produced gives the catalog back.
\<close>

theorem roundtrip_clean_names:
  assumes "distinct (map name its)"
    and "\<forall>it\<in>set its. checked it \<longrightarrow>
           name it \<noteq> [] \<and> TrimSpace (name it) = name it \<and> LF \<notin> set (name it) \<and>
           length (name it) < MaxScanTokenSize"
  shows "applyPreviousSelections (map (\<lambda>it. it\<lparr>checked := False\<rparr>) its)
           (outputTxt (snd (writeSelections its None w))) = Inr its"
proof -
  let ?ns = "map name (filter checked its)"
  let ?fresh = "map (\<lambda>it. it\<lparr>checked := False\<rparr>) its"
  have names: "map name ?fresh = map name its" by (induction its) simp_all
  have d: "distinct (map name ?fresh)" using assms(1) by (simp only: names)
  have ok: "n \<noteq> [] \<and> TrimSpace n = n \<and> LF \<notin> set n \<and> length n < MaxScanTokenSize"
    if "n \<in> set ?ns" for n
    using that assms(2) by auto
  have sc: "scanLines (selectionText its) = (?ns, None)"
    unfolding selectionText_names
  proof (rule scanLines_selection)
    fix n assume "n \<in> set ?ns"
    from ok[OF this] dropCR_trimmed[of n]
    show "LF \<notin> set n \<and> length n < MaxScanTokenSize \<and> dropCR n = n" by simp
  qed
  have en: "entries ?ns = ?ns"
    by (rule entries_trimmed) (use ok in simp)
  have known: "find (\<lambda>e. e \<notin> set (map name ?fresh)) ?ns = None"
    unfolding names by (auto simp add: find_None_iff)
  from applyLines_buildIndex[OF d, of ?ns] known
  have "applyLines (buildIndex ?fresh 0 Map.empty) ?ns ?fresh = Inr (markEntries ?ns ?fresh)"
    by (simp only: en option.case)
  with mark_back[OF assms(1)]
  have "applyLines (buildIndex ?fresh 0 Map.empty) ?ns ?fresh = Inr its" by simp
  with sc show ?thesis
    by (simp add: writeSelections_eq applyPreviousSelections_def)
qed


theorem roundtrip_clean_names_witness:
  "distinct (map name [plain ''alpha'', picked ''beta'', picked ''g d''])
   \<and> TrimSpace ''beta'' = ''beta'' \<and> TrimSpace ''g d'' = ''g d''
   \<and> applyPreviousSelections [plain ''alpha'', plain ''beta'', plain ''g d'']
        (outputTxt (snd (writeSelections [plain ''alpha'', picked ''beta'', picked ''g d''] None
            \<lparr>outputTxt = NotExist, writes = []\<rparr>)))
       = Inr [plain ''alpha'', picked ''beta'', picked ''g d'']"
proof -
  let ?its = "[plain ''alpha'', picked ''beta'', picked ''g d'']"
  have d: "distinct (map name ?its)" by (simp add: plain_def picked_def)
  have t1: "TrimSpace ''beta'' = ''beta''" by (simp add: trim_eval)
  have t2: "TrimSpace ''g d'' = ''g d''" by (simp add: trim_eval)
  have c: "\<forall>it\<in>set ?its. checked it \<longrightarrow>
           name it \<noteq> [] \<and> TrimSpace (name it) = name it \<and> LF \<notin> set (name it) \<and>
           length (name it) < MaxScanTokenSize"
    by (simp add: plain_def picked_def t1 t2 MaxScanTokenSize_def)
  from roundtrip_clean_names[OF d c, of "\<lparr>outputTxt = NotExist, writes = []\<rparr>"]
  have "applyPreviousSelections [plain ''alpha'', plain ''beta'', plain ''g d'']
        (outputTxt (snd (writeSelections ?its None \<lparr>outputTxt = NotExist, writes = []\<rparr>)))
       = Inr ?its"
    by (simp add: plain_def picked_def)
  with d t1 t2 show ?thesis by blast
qed


lemma scanLines_long_name:
  "scanLines (replicate 70000 CHR ''a'' @ [LF]) = ([], Some ErrTooLong)"
proof -
  have "takeWhile (\<lambda>c. c \<noteq> LF) (replicate 70000 CHR ''a'' @ [LF]) = replicate 70000 CHR ''a''"
    by (simp add: takeWhile_tail takeWhile_replicate)
  then show ?thesis
    by (subst scanLines.simps) (simp add: MaxScanTokenSize_def Let_def)
qed


text \<open>
  Against claim C5 as it is stated: a checked name with a leading blank comes back
  trimmed and is unknown; a checked name with a line feed in it comes back as two
  lines; a checked name of 70000 bytes stops the scanner.
\<close>

theorem roundtrip_counterexample:
  "applyPreviousSelections [plain '' a'']
      (outputTxt (snd (writeSelections [picked '' a''] None \<lparr>outputTxt = NotExist, writes = []\<rparr>)))
     = Inl (UnknownEntry ''a'')
   \<and> applyPreviousSelections [plain (''a'' @ [LF] @ ''b'')]
      (outputTxt (snd (writeSelections [picked (''a'' @ [LF] @ ''b'')] None
          \<lparr>outputTxt = NotExist, writes = []\<rparr>)))
     = Inl (UnknownEntry ''a'')
   \<and> applyPreviousSelections [plain (replicate 70000 CHR ''a'')]
      (outputTxt (snd (writeSelections [picked (replicate 70000 CHR ''a'')] None
          \<lparr>outputTxt = NotExist, writes = []\<rparr>)))
     = Inl ErrTooLong"
proof -
  have a: "applyPreviousSelections [plain '' a'']
      (outputTxt (snd (writeSelections [picked '' a''] None \<lparr>outputTxt = NotExist, writes = []\<rparr>)))
     = Inl (UnknownEntry ''a'')"
    by (simp add: writeSelections_eq selectionText_def applyPreviousSelections_def
        scanLines.simps MaxScanTokenSize_def dropCR_def trim_eval plain_def picked_def Let_def)
  have b: "applyPreviousSelections [plain (''a'' @ [LF] @ ''b'')]
      (outputTxt (snd (writeSelections [picked (''a'' @ [LF] @ ''b'')] None
          \<lparr>outputTxt = NotExist, writes = []\<rparr>)))
     = Inl (UnknownEntry ''a'')"
    by (simp add: writeSelections_eq selectionText_def applyPreviousSelections_def
        scanLines.simps MaxScanTokenSize_def dropCR_def trim_eval plain_def picked_def Let_def)
  have c: "applyPreviousSelections [plain (replicate 70000 CHR ''a'')]
      (outputTxt (snd (writeSelections [picked (replicate 70000 CHR ''a'')] None
          \<lparr>outputTxt = NotExist, writes = []\<rparr>)))
     = Inl ErrTooLong"
    by (simp add: writeSelections_eq selectionText_def applyPreviousSelections_def
        scanLines_long_name plain_def picked_def)
  from a b c show ?thesis by simp
qed

section \<open>Building the catalog\<close>























section \<open>The program\<close>

lemmas main_eval =
  main_def listMarkdown_def regularFile_def Ext_def ToLower_def asciiLower_def less_char_def
  char_of_def bit_Suc_0_iff keepingSort_def swappingSort_def lessName_def
  applyPreviousSelections_def scanLines.simps MaxScanTokenSize_def dropCR_def
  TrimSpace_def spaceSeqs_def stripLeading.simps

lemma main_changes_only_after_commit:
  assumes "snd (main srt U e w) \<noteq> w"
  shows "\<exists>its h r. runSelector (envScreenOk e) [its] 0 (envInputs e) = Committed h r"
  using assms
  by (auto simp add: main_def split: if_splits sum.splits outcome.splits prod.splits)

text \<open>
  Claim C8: Escape, Ctrl-C, \<open>q\<close> and \<open>Q\<close> end the loop as aborted; a run that ends as
  aborted leaves the world as it was, the output file and the log of writes included;
  the world changes only in a run whose loop was committed.
\<close>

theorem cancel_skips_persistence:
  "(k = KeyEscape \<or> k = KeyCtrlC \<or> k = KeyRune CHR ''q'' \<or> k = KeyRune CHR ''Q'' \<longrightarrow>
      handleEvent vh (EventKey k) st = Aborted (heap st))
   \<and> (envNArg e = 1 \<and> envAbsOk e \<and> envGetwdOk e \<and> listMarkdown srt U (envDir e) = Inr its0 \<and>
       applyPreviousSelections its0 (outputTxt w) = Inr its \<and> its \<noteq> [] \<and>
       runSelector (envScreenOk e) [its] 0 (envInputs e) = Aborted h'
       \<longrightarrow> main srt U e w = (SelectionAborted, w))
   \<and> (fst (main srt U e w) = SelectionAborted \<longrightarrow> snd (main srt U e w) = w)
   \<and> (snd (main srt U e w) \<noteq> w \<longrightarrow>
        (\<exists>its h r. runSelector (envScreenOk e) [its] 0 (envInputs e) = Committed h r))"
proof -
  have a: "k = KeyEscape \<or> k = KeyCtrlC \<or> k = KeyRune CHR ''q'' \<or> k = KeyRune CHR ''Q'' \<longrightarrow>
      handleEvent vh (EventKey k) st = Aborted (heap st)"
    by auto
  have b: "envNArg e = 1 \<and> envAbsOk e \<and> envGetwdOk e \<and> listMarkdown srt U (envDir e) = Inr its0 \<and>
       applyPreviousSelections its0 (outputTxt w) = Inr its \<and> its \<noteq> [] \<and>
       runSelector (envScreenOk e) [its] 0 (envInputs e) = Aborted h'
       \<longrightarrow> main srt U e w = (SelectionAborted, w)"
    by (simp add: main_def)
  have c: "fst (main srt U e w) = SelectionAborted \<longrightarrow> snd (main srt U e w) = w"
    by (auto simp add: main_def split: if_splits sum.splits outcome.splits prod.splits)
  from a b c main_changes_only_after_commit[of srt U e w] show ?thesis by blast
qed

lemma abortedRun_eval:
  "main keepingSort (\<lambda>s. s) abortedRun betaSaved = (SelectionAborted, betaSaved)"
  by (simp add: abortedRun_def betaSaved_def main_eval sel_eval)

theorem cancel_skips_persistence_witness:
  "fst (main keepingSort (\<lambda>s. s) abortedRun betaSaved) = SelectionAborted
   \<and> snd (main keepingSort (\<lambda>s. s) abortedRun betaSaved) = betaSaved
   \<and> outputTxt (snd (main keepingSort (\<lambda>s. s) abortedRun betaSaved)) = Contents (''beta'' @ [LF])
   \<and> writes (snd (main keepingSort (\<lambda>s. s) abortedRun betaSaved)) = []"
proof -
  have f: "fst (main keepingSort (\<lambda>s. s) abortedRun betaSaved) = SelectionAborted"
    by (simp add: abortedRun_eval)
  from cancel_skips_persistence[of _ _ _ abortedRun keepingSort "\<lambda>s. s" _ betaSaved] f
  have "snd (main keepingSort (\<lambda>s. s) abortedRun betaSaved) = betaSaved" by blast
  with f show ?thesis by (simp add: betaSaved_def)
qed

text \<open>
  With an empty catalog \<open>main\<close> does not start the loop: it reports that there are no
  Markdown files and leaves the world as it is.
\<close>

lemma main_empty_catalog:
  assumes "envNArg e = 1" and "envAbsOk e" and "envGetwdOk e"
    and "listMarkdown srt U (envDir e) = Inr its0"
    and "applyPreviousSelections its0 (outputTxt w) = Inr []"
  shows "main srt U e w = (NoMarkdownFound, w)"
  using assms by (simp add: main_def)

text \<open>
  The end-to-end example: the first run writes \<open>beta\<close> and its line feed, and
  reconciling the same three candidates against that file checks \<open>beta\<close> alone.
\<close>

lemma end_to_end_beta:
  "main keepingSort (\<lambda>s. s) betaRun \<lparr>outputTxt = NotExist, writes = []\<rparr>
     = (Saved 1, betaSaved\<lparr>writes := [''beta'' @ [LF]]\<rparr>)
   \<and> applyPreviousSelections [plain ''alpha'', plain ''beta'', plain ''gamma'']
        (outputTxt betaSaved)
     = Inr [plain ''alpha'', picked ''beta'', plain ''gamma'']"
  by (simp add: betaRun_def betaSaved_def main_eval sel_eval writeSelections_eq selectionText_def)

end
